theory Spec2Isabelle
  imports Main "HOL-Library.Word" "HOL-Library.AList"
begin

section \<open>The publish/subscribe hub of business/publisher\<close>

text \<open>
  The development embeds \<^verbatim>\<open>business/publisher/pubsub.go\<close> and the \<^verbatim>\<open>Message\<close>
  struct it uses. A Go channel is a heap object with identity, so the model keeps a store
  of channels addressed by references; the \<^verbatim>\<open>Publisher\<close> struct is a record whose
  \<^verbatim>\<open>subscribers\<close> map is an association list (one entry per key, in one of the orders
  in which Go's \<^verbatim>\<open>range\<close> may visit the map). Panics and a \<^verbatim>\<open>Lock\<close> that can never be
  granted are values of the type \<open>failure\<close>.

  The run is sequential: one call of the Publisher's interface at a time, and during a call no
  other goroutine receives from, sends to or closes a channel. The dispatch goroutines that
  \<^verbatim>\<open>Publish\<close> starts and joins act on different channels, one per key of the map; they are
  run one after the other in the order of the association list, and the queues they leave do
  not depend on that order (\<open>Publish_order_irrelevant\<close>). A message is the struct behind a
  pointer that is not \<^verbatim>\<open>nil\<close>, and a filter is a function that returns and has no effect.
\<close>

subsection \<open>Message\<close>

text \<open>
  \<^verbatim>\<open>Data any\<close> is a payload of any type \<open>'d\<close>; \<^verbatim>\<open>Expire int\<close> is a 64-bit integer.
\<close>

record 'd Message =
  Event :: string
  Data :: 'd
  Source :: string
  TimeStamp :: string
  Expire :: "64 word"

subsection \<open>Channels, the Publisher and the store\<close>

text \<open>
  \<^verbatim>\<open>type subscriber chan *Message\<close>: a reference to a channel;
  \<^verbatim>\<open>type topicFunc func(v *Message) bool\<close>, where \<open>None\<close> is the \<^verbatim>\<open>nil\<close> function.
\<close>

type_synonym subscriber = nat

type_synonym 'd topicFunc = "('d Message \<Rightarrow> bool) option"

record 'd chan =
  cap :: nat
  buf :: "'d Message list"
  closed :: bool

datatype failure =
    MakeChanSize   \<comment> \<open>panic: makechan: size out of range\<close>
  | OutOfMemory    \<comment> \<open>fatal error: the runtime cannot allocate the buffer of a channel\<close>
  | CloseOfClosed  \<comment> \<open>panic: close of closed channel\<close>
  | SendOnClosed   \<comment> \<open>panic: send on closed channel\<close>
  | LockBlocked    \<comment> \<open>\<^verbatim>\<open>Lock\<close> on a mutex that is held and never released: the call does not return\<close>

text \<open>
  What one dispatch did, and the effects the operations leave in the history of a run.
  \<open>TimedOut d\<close> is the timer case of the \<^verbatim>\<open>select\<close> in \<^verbatim>\<open>SendTopic\<close>, with \<open>d\<close> the
  duration of the timer in nanoseconds.
\<close>

datatype outcome = Skipped | Sent | TimedOut int

datatype event =
    Acquire                      \<comment> \<open>\<^verbatim>\<open>p.m.Lock()\<close> granted\<close>
  | Release                      \<comment> \<open>\<^verbatim>\<open>p.m.Unlock()\<close>\<close>
  | Received subscriber          \<comment> \<open>\<^verbatim>\<open>case <-sub\<close> taken in \<^verbatim>\<open>Evict\<close> or \<^verbatim>\<open>Close\<close>\<close>
  | Closed subscriber            \<comment> \<open>\<^verbatim>\<open>close(sub)\<close> executed\<close>
  | Dispatch subscriber outcome  \<comment> \<open>one \<^verbatim>\<open>SendTopic\<close> finished\<close>

record 'd Publisher =
  m :: bool
  buffer :: int
  subscribers :: "(subscriber \<times> 'd topicFunc) list"

text \<open>
  The state of a run: the Publisher, the store of channels, the next reference \<^verbatim>\<open>make\<close>
  hands out, the history, and \<open>maxchan\<close>, the largest buffer size the machine has memory
  for. No operation changes \<open>maxchan\<close>.
\<close>

record 'd world =
  pub :: "'d Publisher"
  heap :: "subscriber \<Rightarrow> 'd chan"
  nextc :: subscriber
  trace :: "event list"
  maxchan :: int

text \<open>Which ready case a \<^verbatim>\<open>select\<close> takes when more than one can proceed.\<close>

datatype select_case = SendCase | TimerCase

subsection \<open>Primitive steps\<close>

definition seq :: "'e + 'a \<Rightarrow> ('a \<Rightarrow> 'e + 'b) \<Rightarrow> 'e + 'b" where
  "seq r f = (case r of Inl e \<Rightarrow> Inl e | Inr x \<Rightarrow> f x)"

definition emit :: "event \<Rightarrow> 'd world \<Rightarrow> 'd world" where
  "emit e w = w\<lparr>trace := trace w @ [e]\<rparr>"

definition Lock :: "'d world \<Rightarrow> failure + 'd world" where
  "Lock w =
     (if m (pub w) then Inl LockBlocked
      else Inr (emit Acquire (w\<lparr>pub := (pub w)\<lparr>m := True\<rparr>\<rparr>)))"

definition Unlock :: "'d world \<Rightarrow> 'd world" where
  "Unlock w = emit Release (w\<lparr>pub := (pub w)\<lparr>m := False\<rparr>\<rparr>)"

text \<open>
  \<^verbatim>\<open>make(chan *Message, n)\<close>. The runtime's \<^verbatim>\<open>makechan\<close> panics with "size out of range"
  when \<^verbatim>\<open>size < 0\<close> or \<^verbatim>\<open>mem > maxAlloc - hchanSize\<close>, where \<^verbatim>\<open>mem\<close> is the size times the
  8 bytes of a pointer. \<^verbatim>\<open>maxAlloc\<close> and \<^verbatim>\<open>hchanSize\<close> are constants of the Go runtime, not
  of this repository: on the 64-bit platforms of Go 1.24, the version the README asks for,
  the heap has 48 address bits and the header of a channel has 104 bytes, so the sizes from
  \<open>2\<^sup>4\<^sup>5 - 12\<close> on are refused. A size the check lets through still needs memory: beyond
  \<open>maxchan\<close> the runtime stops the program. The sizes that are refused include every value
  a 64-bit \<^verbatim>\<open>int\<close> cannot hold, so a channel is made only for a size the code can be given.
  The channel is at a reference that was never handed out before.
\<close>

definition maxAlloc :: int where
  "maxAlloc = 2 ^ 48"

definition hchanSize :: int where
  "hchanSize = 104"

definition make_accepts :: "int \<Rightarrow> 'd world \<Rightarrow> bool" where
  "make_accepts n w = (0 \<le> n \<and> 8 * n \<le> maxAlloc - hchanSize \<and> n \<le> maxchan w)"

definition make_chan :: "int \<Rightarrow> 'd world \<Rightarrow> failure + subscriber \<times> 'd world" where
  "make_chan n w =
     (if n < 0 \<or> maxAlloc - hchanSize < 8 * n then Inl MakeChanSize
      else if maxchan w < n then Inl OutOfMemory
      else Inr (nextc w,
                w\<lparr>heap := (heap w)(nextc w := \<lparr>cap = nat n, buf = [], closed = False\<rparr>),
                  nextc := Suc (nextc w)\<rparr>))"

text \<open>\<^verbatim>\<open>close(sub)\<close>: panics on a channel that is closed already.\<close>

definition close_chan :: "subscriber \<Rightarrow> 'd world \<Rightarrow> failure + 'd world" where
  "close_chan sub w =
     (if closed (heap w sub) then Inl CloseOfClosed
      else Inr (emit (Closed sub) (w\<lparr>heap := (heap w)(sub := (heap w sub)\<lparr>closed := True\<rparr>)\<rparr>)))"

text \<open>
  \<^verbatim>\<open>select { case <-sub: default: close(sub) }\<close>, the statement shared by \<^verbatim>\<open>Evict\<close> and
  \<^verbatim>\<open>Close\<close>. A receive can proceed when the channel holds a buffered message (the message
  is taken out and dropped, the channel stays open) or when the channel is closed and
  drained (the zero value is received); only when neither holds does the default case run.
\<close>

definition select_close :: "subscriber \<Rightarrow> 'd world \<Rightarrow> failure + 'd world" where
  "select_close sub w =
     (if buf (heap w sub) \<noteq> []
      then Inr (emit (Received sub)
                  (w\<lparr>heap := (heap w)(sub := (heap w sub)\<lparr>buf := tl (buf (heap w sub))\<rparr>)\<rparr>))
      else if closed (heap w sub) then Inr (emit (Received sub) w)
      else close_chan sub w)"

subsection \<open>The operations of the Publisher\<close>

definition NewPublisher :: "int \<Rightarrow> 'd Publisher" where
  "NewPublisher n = \<lparr>m = False, buffer = n, subscribers = []\<rparr>"

definition SubscribeTopic :: "'d topicFunc \<Rightarrow> 'd world \<Rightarrow> failure + subscriber \<times> 'd world" where
  "SubscribeTopic topic w =
     seq (make_chan (buffer (pub w)) w) (\<lambda>(ch, w1).
     seq (Lock w1) (\<lambda>w2.
     Inr (ch, Unlock (w2\<lparr>pub := (pub w2)\<lparr>subscribers :=
                            AList.update ch topic (subscribers (pub w2))\<rparr>\<rparr>))))"

definition Subscribe :: "'d world \<Rightarrow> failure + subscriber \<times> 'd world" where
  "Subscribe w = SubscribeTopic None w"

definition Evict :: "subscriber \<Rightarrow> 'd world \<Rightarrow> failure + 'd world" where
  "Evict sub w =
     seq (Lock w) (\<lambda>w1.
       (case map_of (subscribers (pub w1)) sub of
          None \<Rightarrow> Inr (Unlock w1)
        | Some _ \<Rightarrow>
            seq (select_close sub
                   (w1\<lparr>pub := (pub w1)\<lparr>subscribers := AList.delete sub (subscribers (pub w1))\<rparr>\<rparr>))
              (\<lambda>w2. Inr (Unlock w2))))"

text \<open>The body of the loop of \<^verbatim>\<open>Close\<close>, run for the keys the \<^verbatim>\<open>range\<close> yields.\<close>

fun close_each :: "subscriber list \<Rightarrow> 'd world \<Rightarrow> failure + 'd world" where
  "close_each [] w = Inr w"
| "close_each (sub # subs) w =
     seq (select_close sub
            (w\<lparr>pub := (pub w)\<lparr>subscribers := AList.delete sub (subscribers (pub w))\<rparr>\<rparr>))
       (close_each subs)"

definition Close :: "'d world \<Rightarrow> failure + 'd world" where
  "Close w =
     seq (Lock w) (\<lambda>w1.
     seq (close_each (map fst (subscribers (pub w1))) w1) (\<lambda>w2.
     Inr (Unlock w2)))"

text \<open>
  \<^verbatim>\<open>time.Duration(v.Expire) * time.Second\<close>: a 64-bit product that wraps, read as a signed
  number of nanoseconds.
\<close>

definition timer_ns :: "'d Message \<Rightarrow> int" where
  "timer_ns v = sint (Expire v * 1000000000)"

text \<open>
  \<^verbatim>\<open>SendTopic\<close>. After the filter, \<^verbatim>\<open>select { case sub <- v: case <-time.After(d): return }\<close>.
  The send can proceed when the buffer has room, and also on a closed channel, where it
  panics. The channel of \<^verbatim>\<open>time.After(d)\<close> can be received from once \<open>d\<close> has elapsed: for
  \<open>d \<le> 0\<close> that is when the \<^verbatim>\<open>select\<close> starts, for \<open>d > 0\<close> (a second at least) it is
  not. When both cases can proceed Go takes one of them by a uniform random choice: \<open>pick\<close>
  is that choice. When only one can proceed it is taken. When none can, the goroutine waits;
  nothing else touches the channel, so the timer fires after \<open>d\<close> and the timer case is
  taken. The \<^verbatim>\<open>WaitGroup\<close> only tells \<^verbatim>\<open>Publish\<close> that the dispatch has finished.
\<close>

definition SendTopic ::
  "subscriber \<Rightarrow> 'd topicFunc \<Rightarrow> 'd Message \<Rightarrow> select_case \<Rightarrow> 'd world \<Rightarrow> failure + 'd world" where
  "SendTopic sub topic v pick w =
     (if (case topic of None \<Rightarrow> False | Some f \<Rightarrow> \<not> f v)
      then Inr (emit (Dispatch sub Skipped) w)
      else if (closed (heap w sub) \<or> length (buf (heap w sub)) < cap (heap w sub))
              \<and> (0 < timer_ns v \<or> pick = SendCase)
      then (if closed (heap w sub) then Inl SendOnClosed
            else Inr (emit (Dispatch sub Sent)
                        (w\<lparr>heap := (heap w)(sub := (heap w sub)\<lparr>buf := buf (heap w sub) @ [v]\<rparr>)\<rparr>)))
      else Inr (emit (Dispatch sub (TimedOut (timer_ns v))) w))"

text \<open>
  The loop of \<^verbatim>\<open>Publish\<close> with the join: one \<^verbatim>\<open>SendTopic\<close> per entry of the map. A panic
  in a dispatch goroutine ends the program.
\<close>

fun send_each ::
  "(subscriber \<times> 'd topicFunc) list \<Rightarrow> 'd Message \<Rightarrow> (subscriber \<Rightarrow> select_case) \<Rightarrow> 'd world
   \<Rightarrow> failure + 'd world" where
  "send_each [] v sched w = Inr w"
| "send_each ((sub, topic) # rest) v sched w =
     seq (SendTopic sub topic v (sched sub) w) (send_each rest v sched)"

definition Publish ::
  "'d Message \<Rightarrow> (subscriber \<Rightarrow> select_case) \<Rightarrow> 'd world \<Rightarrow> failure + 'd world" where
  "Publish v sched w =
     seq (Lock w) (\<lambda>w1.
     seq (send_each (subscribers (pub w1)) v sched w1) (\<lambda>w2.
     Inr (Unlock w2)))"

subsection \<open>Observations on a run\<close>

text \<open>
  A run starts with a new Publisher, no channel allocated and an empty history, on a machine
  whose memory holds queues of up to \<open>2\<^sup>2\<^sup>0\<close> messages. The store is total; what it holds
  at a reference that was never allocated is never read.
\<close>

definition start :: "int \<Rightarrow> 'd world" where
  "start n = \<lparr>pub = NewPublisher n, heap = (\<lambda>_. \<lparr>cap = 0, buf = [], closed = False\<rparr>),
              nextc = 0, trace = [], maxchan = 2 ^ 20\<rparr>"

definition registered :: "subscriber \<Rightarrow> 'd world \<Rightarrow> bool" where
  "registered sub w = (sub \<in> set (map fst (subscribers (pub w))))"

text \<open>How often \<^verbatim>\<open>close(sub)\<close> was executed in a history.\<close>

definition closes :: "subscriber \<Rightarrow> event list \<Rightarrow> nat" where
  "closes sub tr = length (filter (\<lambda>e. e = Closed sub) tr)"

text \<open>Every key of the map is a reference that \<^verbatim>\<open>make\<close> has handed out.\<close>

definition allocated :: "'d world \<Rightarrow> bool" where
  "allocated w = list_all (\<lambda>c. c < nextc w) (map fst (subscribers (pub w)))"

text \<open>No registered channel is closed.\<close>

definition live_open :: "'d world \<Rightarrow> bool" where
  "live_open w = list_all (\<lambda>c. \<not> closed (heap w c)) (map fst (subscribers (pub w)))"

text \<open>
  The state between two calls of a run that uses only the Publisher's interface: the mutex
  is free, the map has one entry per key, every key was allocated and no registered channel
  is closed.
\<close>

definition sound :: "'d world \<Rightarrow> bool" where
  "sound w = (\<not> m (pub w) \<and> distinct (map fst (subscribers (pub w))) \<and> allocated w \<and> live_open w)"

text \<open>The channel a dispatch event is about.\<close>

fun dispatch_of :: "event \<Rightarrow> subscriber option" where
  "dispatch_of (Dispatch sub out) = Some sub"
| "dispatch_of e = None"

text \<open>
  The property of a history that no dispatch waits out a timer of positive duration while
  the mutex is held; \<open>held\<close> is the state of the mutex before the first event.
\<close>

fun waits_unlocked :: "bool \<Rightarrow> event list \<Rightarrow> bool" where
  "waits_unlocked held [] = True"
| "waits_unlocked held (Acquire # es) = waits_unlocked True es"
| "waits_unlocked held (Release # es) = waits_unlocked False es"
| "waits_unlocked held (Dispatch sub (TimedOut d) # es) =
     ((d \<le> 0 \<or> \<not> held) \<and> waits_unlocked held es)"
| "waits_unlocked held (e # es) = waits_unlocked held es"

text \<open>
  What one dispatch leaves of a channel that is open: the channel after \<^verbatim>\<open>SendTopic\<close>
  with filter \<open>topic\<close>, message \<open>v\<close> and choice \<open>pick\<close>.
\<close>

definition dispatched :: "'d topicFunc \<Rightarrow> 'd Message \<Rightarrow> select_case \<Rightarrow> 'd chan \<Rightarrow> 'd chan" where
  "dispatched topic v pick c =
     (if (case topic of None \<Rightarrow> True | Some f \<Rightarrow> f v) \<and> length (buf c) < cap c
         \<and> (0 < timer_ns v \<or> pick = SendCase)
      then c\<lparr>buf := buf c @ [v]\<rparr> else c)"

text \<open>
  The words of the specification for \<open>subscribe\<close>: a new bounded queue of the configured
  capacity is allocated, registered under the given filter and returned; the registry grows
  by one entry, and nothing else changes. The queue is new: its reference was never handed
  out before the call, is handed out by it, and is not in the registry before it.
\<close>

definition subscribe_spec :: "'d topicFunc \<Rightarrow> 'd world \<Rightarrow> subscriber \<times> 'd world \<Rightarrow> bool" where
  "subscribe_spec topic w r =
     (case r of (ch, w') \<Rightarrow>
        nextc w \<le> ch \<and> ch < nextc w'
      \<and> \<not> registered ch w
      \<and> heap w' = (heap w)(ch := \<lparr>cap = nat (buffer (pub w)), buf = [], closed = False\<rparr>)
      \<and> map_of (subscribers (pub w')) = (map_of (subscribers (pub w)))(ch \<mapsto> topic)
      \<and> length (subscribers (pub w')) = Suc (length (subscribers (pub w)))
      \<and> buffer (pub w') = buffer (pub w) \<and> m (pub w') = m (pub w) \<and> maxchan w' = maxchan w)"

subsection \<open>Inputs of the scenarios\<close>

definition message :: "string \<Rightarrow> 64 word \<Rightarrow> unit Message" where
  "message ev e = \<lparr>Event = ev, Data = (), Source = [], TimeStamp = [], Expire = e\<rparr>"

definition on_event :: "string \<Rightarrow> 'd topicFunc" where
  "on_event ev = Some (\<lambda>v. Event v = ev)"

text \<open>A sequence of calls, stopping at the first failure; \<open>forget\<close> drops a returned channel.\<close>

fun run :: "('d world \<Rightarrow> failure + 'd world) list \<Rightarrow> 'd world \<Rightarrow> failure + 'd world" where
  "run [] w = Inr w"
| "run (f # fs) w = seq (f w) (run fs)"

definition forget :: "('d world \<Rightarrow> failure + 'a \<times> 'd world) \<Rightarrow> 'd world \<Rightarrow> failure + 'd world" where
  "forget f w = seq (f w) (\<lambda>(x, w'). Inr w')"

text \<open>What a run shows of one channel, of the history and of the keys of the map.\<close>

record 'd view =
  is_registered :: bool
  is_closed :: bool
  times_closed :: nat
  capacity :: nat
  queued :: "'d Message list"

definition view :: "subscriber \<Rightarrow> failure + 'd world \<Rightarrow> failure + 'd view" where
  "view sub r = seq r (\<lambda>w. Inr \<lparr>is_registered = registered sub w, is_closed = closed (heap w sub),
                                 times_closed = closes sub (trace w), capacity = cap (heap w sub),
                                 queued = buf (heap w sub)\<rparr>)"

definition history :: "failure + 'd world \<Rightarrow> failure + event list" where
  "history r = seq r (\<lambda>w. Inr (trace w))"

definition registry :: "failure + 'd world \<Rightarrow> failure + subscriber list" where
  "registry r = seq r (\<lambda>w. Inr (map fst (subscribers (pub w))))"

text \<open>
  Two states for the instances below: two subscribers with room in their queues, the second
  with a filter; and one subscriber whose queue of capacity 1 is full.
\<close>

definition two_subscribers :: "unit world" where
  "two_subscribers =
     \<lparr>pub = \<lparr>m = False, buffer = 1, subscribers = [(0, None), (1, on_event ''y'')]\<rparr>,
      heap = (\<lambda>_. \<lparr>cap = 1, buf = [], closed = False\<rparr>), nextc = 2, trace = [],
      maxchan = 2 ^ 20\<rparr>"

definition full_queue :: "unit world" where
  "full_queue =
     \<lparr>pub = \<lparr>m = False, buffer = 1, subscribers = [(0, None)]\<rparr>,
      heap = (\<lambda>_. \<lparr>cap = 1, buf = [message ''x'' 1], closed = False\<rparr>), nextc = 1, trace = [],
      maxchan = 2 ^ 20\<rparr>"

section \<open>Facts about the primitive steps\<close>

lemma seq_Inr [simp]: "seq (Inr x) f = f x" by (simp add: seq_def)
lemma seq_Inl [simp]: "seq (Inl e) f = Inl e" by (simp add: seq_def)

lemma seq_eq_Inr: "seq r f = Inr y \<longleftrightarrow> (\<exists>x. r = Inr x \<and> f x = Inr y)"
  by (cases r) simp_all

lemma select_close_returns: "\<exists>w'. select_close sub w = Inr w'"
  by (simp add: select_close_def close_chan_def)

lemma select_close_frame:
  "select_close sub w = Inr w' \<Longrightarrow> pub w' = pub w \<and> nextc w' = nextc w \<and> (\<forall>c. c \<noteq> sub \<longrightarrow> heap w' c = heap w c)"
  by (auto simp: select_close_def close_chan_def emit_def split: if_splits)

lemma select_close_empty_open:
  "buf (heap w sub) = [] \<Longrightarrow> \<not> closed (heap w sub) \<Longrightarrow>
   select_close sub w = Inr (w\<lparr>heap := (heap w)(sub := (heap w sub)\<lparr>closed := True\<rparr>), trace := trace w @ [Closed sub]\<rparr>)"
  by (simp add: select_close_def close_chan_def emit_def)

lemma select_close_buffered:
  "buf (heap w sub) \<noteq> [] \<Longrightarrow>
   select_close sub w = Inr (w\<lparr>heap := (heap w)(sub := (heap w sub)\<lparr>buf := tl (buf (heap w sub))\<rparr>), trace := trace w @ [Received sub]\<rparr>)"
  by (simp add: select_close_def close_chan_def emit_def)

lemma select_close_closes_at_most_once:
  "select_close sub w = Inr w' \<Longrightarrow> closes c (trace w') \<le> Suc (closes c (trace w))"
  by (auto simp: select_close_def close_chan_def emit_def closes_def split: if_splits)

lemma emit_sel [simp]:
  "pub (emit e w) = pub w" "heap (emit e w) = heap w" "nextc (emit e w) = nextc w"
  "trace (emit e w) = trace w @ [e]" "maxchan (emit e w) = maxchan w"
  by (simp_all add: emit_def)

lemma emit_update [simp]:
  "(emit e w)\<lparr>pub := p\<rparr> = emit e (w\<lparr>pub := p\<rparr>)"
  "(emit e w)\<lparr>heap := h\<rparr> = emit e (w\<lparr>heap := h\<rparr>)"
  by (cases w, simp add: emit_def)+

lemma registered_iff: "registered sub w \<longleftrightarrow> (\<exists>t. map_of (subscribers (pub w)) sub = Some t)"
proof -
  have "map_of (subscribers (pub w)) sub = None \<longleftrightarrow> \<not> registered sub w"
    by (simp add: registered_def map_of_eq_None_iff)
  then show ?thesis by (cases "map_of (subscribers (pub w)) sub") auto
qed

lemma closes_append [simp]: "closes c (xs @ ys) = closes c xs + closes c ys"
  by (simp add: closes_def)

lemma closes_simps [simp]:
  "closes c [] = 0" "closes c (Acquire # es) = closes c es" "closes c (Release # es) = closes c es"
  "closes c (Received s # es) = closes c es" "closes c (Dispatch s out # es) = closes c es"
  "closes c (Closed s # es) = (if s = c then Suc (closes c es) else closes c es)"
  by (auto simp: closes_def)

section \<open>Evict\<close>

lemma Evict_returns: "\<not> m (pub w) \<Longrightarrow> \<exists>w'. Evict sub w = Inr w'"
  by (auto simp: Evict_def Lock_def emit_def select_close_def close_chan_def split: option.splits)

lemma Evict_unregistered:
  "\<not> m (pub w) \<Longrightarrow> \<not> registered sub w \<Longrightarrow> Evict sub w = Inr (w\<lparr>trace := trace w @ [Acquire, Release]\<rparr>)"
  by (auto simp: registered_iff Evict_def Lock_def Unlock_def emit_def)

lemma Evict_registered:
  "\<not> m (pub w) \<Longrightarrow> registered sub w \<Longrightarrow>
   Evict sub w = seq (select_close sub (emit Acquire
                        (w\<lparr>pub := (pub w)\<lparr>m := True, subscribers := AList.delete sub (subscribers (pub w))\<rparr>\<rparr>)))
                   (\<lambda>w2. Inr (Unlock w2))"
  by (auto simp: registered_iff Evict_def Lock_def)

lemma Evict_unlocked: "Evict sub w = Inr w' \<Longrightarrow> \<not> m (pub w)"
  by (auto simp: Evict_def Lock_def seq_eq_Inr split: if_splits)

lemma not_registered_delete: "\<not> registered sub (w\<lparr>pub := (pub w)\<lparr>subscribers := AList.delete sub (subscribers (pub w))\<rparr>\<rparr>)"
  by (auto simp: registered_def AList.delete_eq)

lemma Evict_registry:
  assumes "Evict sub w = Inr w'"
  shows "subscribers (pub w') = AList.delete sub (subscribers (pub w)) \<and> \<not> registered sub w'
     \<and> buffer (pub w') = buffer (pub w) \<and> \<not> m (pub w') \<and> nextc w' = nextc w"
proof -
  have u: "\<not> m (pub w)" using assms by (rule Evict_unlocked)
  show ?thesis
  proof (cases "registered sub w")
    case False
    with u assms show ?thesis
      by (auto simp: Evict_unregistered registered_def)
  next
    case True
    with u assms show ?thesis
      by (auto simp: Evict_registered seq_eq_Inr Unlock_def emit_def registered_def AList.delete_eq
            dest!: select_close_frame)
  qed
qed

lemma Evict_empty_open:
  "\<not> m (pub w) \<Longrightarrow> registered sub w \<Longrightarrow> buf (heap w sub) = [] \<Longrightarrow> \<not> closed (heap w sub) \<Longrightarrow>
   \<exists>w'. Evict sub w = Inr w' \<and> heap w' = (heap w)(sub := (heap w sub)\<lparr>closed := True\<rparr>)
        \<and> trace w' = trace w @ [Acquire, Closed sub, Release]"
  by (simp add: Evict_registered select_close_empty_open Unlock_def emit_def)

lemma Evict_buffered:
  "\<not> m (pub w) \<Longrightarrow> registered sub w \<Longrightarrow> buf (heap w sub) \<noteq> [] \<Longrightarrow>
   \<exists>w'. Evict sub w = Inr w' \<and> heap w' = (heap w)(sub := (heap w sub)\<lparr>buf := tl (buf (heap w sub))\<rparr>)
        \<and> trace w' = trace w @ [Acquire, Received sub, Release]"
  by (simp add: Evict_registered select_close_buffered Unlock_def emit_def)

lemma Evict_again:
  "Evict sub w = Inr w1 \<Longrightarrow> Evict sub w1 = Inr (w1\<lparr>trace := trace w1 @ [Acquire, Release]\<rparr>)"
  using Evict_registry[of sub w w1] Evict_unregistered[of w1 sub] by simp

lemma Evict_closes_once:
  assumes "Evict sub w = Inr w1"
  shows "closes c (trace w1) \<le> Suc (closes c (trace w))"
proof -
  have u: "\<not> m (pub w)" using assms by (rule Evict_unlocked)
  show ?thesis
  proof (cases "registered sub w")
    case False
    with u assms show ?thesis by (auto simp: Evict_unregistered)
  next
    case True
    with u assms show ?thesis
      by (auto simp: Evict_registered seq_eq_Inr Unlock_def emit_def
            dest!: select_close_closes_at_most_once)
  qed
qed

lemma Evict_twice_closes_once:
  assumes "Evict sub w = Inr w1" and "Evict sub w1 = Inr w2"
  shows "closes c (trace w2) \<le> Suc (closes c (trace w))"
  using Evict_again[OF assms(1)] assms(2) Evict_closes_once[OF assms(1), of c] by auto

lemmas ops = start_def NewPublisher_def forget_def Subscribe_def SubscribeTopic_def make_chan_def
  maxAlloc_def hchanSize_def
  Lock_def Unlock_def emit_def Evict_def Close_def Publish_def SendTopic_def select_close_def
  close_chan_def timer_ns_def message_def on_event_def view_def history_def registry_def
  registered_def closes_def

text \<open>
  C1. Claim: the queue of every subscription is closed exactly once over its lifetime; calling
  \<^verbatim>\<open>Evict\<close> twice in a row closes it exactly once and raises no error, and removing a
  subscription that is dead or was never registered does nothing.

  \<^verbatim>\<open>Evict\<close> never fails, a second \<^verbatim>\<open>Evict\<close> does nothing and no queue is closed twice
  (\<open>Evict_returns\<close>, \<open>Evict_again\<close>, \<open>Evict_unregistered\<close>, \<open>Evict_twice_closes_once\<close>), and an
  empty queue is closed (\<open>Evict_empty_open\<close>). A queue that holds a message is not closed at
  all: the receive case of the \<^verbatim>\<open>select\<close>, commented "channel is already closed", takes the
  buffered message instead. After \<^verbatim>\<open>NewPublisher(1)\<close>, \<^verbatim>\<open>Subscribe\<close>, one \<^verbatim>\<open>Publish\<close> and
  \<^verbatim>\<open>Evict\<close> twice, the channel is out of the map, was closed zero times and is open.
\<close>

theorem Evict_twice_buffered_queue_never_closed:
  "view 0 (run [forget Subscribe, Publish (message ''x'' 1) (\<lambda>_. SendCase), Evict 0, Evict 0]
             (start 1))
   = Inr \<lparr>is_registered = False, is_closed = False, times_closed = 0, capacity = 1, queued = []\<rparr>"
  by (simp add: ops)

text \<open>
  C2. Claim: one \<^verbatim>\<open>Evict\<close> of a live subscription removes it from the registry and closes
  its queue, so that readers see the end of the stream, however many messages the queue
  holds; on a removed subscription it changes nothing.

  With two messages in the queue, \<^verbatim>\<open>Evict\<close> removes the subscription, drops the first
  message and leaves the channel open with the second (in general \<open>Evict_buffered\<close>): a reader
  that ranges over the channel gets one message and then blocks for ever.
\<close>

theorem Evict_buffered_queue_stays_open:
  "view 0 (run [forget Subscribe, Publish (message ''a'' 1) (\<lambda>_. SendCase),
                Publish (message ''b'' 1) (\<lambda>_. SendCase), Evict 0] (start 2))
   = Inr \<lparr>is_registered = False, is_closed = False, times_closed = 0, capacity = 2,
          queued = [message ''b'' 1]\<rparr>"
  by (simp add: ops)

section \<open>Close\<close>

lemma select_close_keeps:
  assumes "select_close sub w = Inr w'"
  shows "(closed (heap w c) \<longrightarrow> closed (heap w' c)) \<and> (buf (heap w c) = [] \<longrightarrow> buf (heap w' c) = [])
       \<and> trace w' \<noteq> [] \<and> m (pub w') = m (pub w)"
  using assms by (auto simp: select_close_def close_chan_def split: if_splits)

lemma close_each_returns: "\<exists>w'. close_each ks w = Inr w'"
proof (induction ks arbitrary: w)
  case Nil
  show ?case by simp
next
  case (Cons k ks)
  obtain w1 where "select_close k (w\<lparr>pub := (pub w)\<lparr>subscribers := AList.delete k (subscribers (pub w))\<rparr>\<rparr>) = Inr w1"
    using select_close_returns by blast
  with Cons.IH[of w1] show ?case by simp
qed

lemma close_each_keys:
  "close_each ks w = Inr w' \<Longrightarrow>
     set (map fst (subscribers (pub w'))) = set (map fst (subscribers (pub w))) - set ks
   \<and> m (pub w') = m (pub w) \<and> buffer (pub w') = buffer (pub w) \<and> nextc w' = nextc w"
proof (induction ks arbitrary: w)
  case Nil
  then show ?case by simp
next
  case (Cons k ks)
  then obtain w1 where
    s: "select_close k (w\<lparr>pub := (pub w)\<lparr>subscribers := AList.delete k (subscribers (pub w))\<rparr>\<rparr>) = Inr w1"
    and r: "close_each ks w1 = Inr w'"
    by (auto simp: seq_eq_Inr)
  from select_close_frame[OF s] Cons.IH[OF r] show ?case
    by (auto simp: AList.delete_eq)
qed

lemma close_each_heap:
  "close_each ks w = Inr w' \<Longrightarrow>
     (closed (heap w c) \<longrightarrow> closed (heap w' c)) \<and> (buf (heap w c) = [] \<longrightarrow> buf (heap w' c) = [])
   \<and> (c \<notin> set ks \<longrightarrow> heap w' c = heap w c)
   \<and> (c \<in> set ks \<longrightarrow> buf (heap w c) = [] \<longrightarrow> closed (heap w' c))"
proof (induction ks arbitrary: w)
  case Nil
  then show ?case by simp
next
  case (Cons k ks)
  let ?w0 = "w\<lparr>pub := (pub w)\<lparr>subscribers := AList.delete k (subscribers (pub w))\<rparr>\<rparr>"
  from Cons.prems obtain w1 where
    s: "select_close k ?w0 = Inr w1" and r: "close_each ks w1 = Inr w'"
    by (auto simp: seq_eq_Inr)
  have k1: "closed (heap w c) \<longrightarrow> closed (heap w1 c)" "buf (heap w c) = [] \<longrightarrow> buf (heap w1 c) = []"
    using select_close_keeps[OF s, of c] by simp_all
  have k2: "c \<noteq> k \<longrightarrow> heap w1 c = heap w c"
    using select_close_frame[OF s] by simp
  have k3: "buf (heap w k) = [] \<longrightarrow> closed (heap w1 k)"
    using s by (auto simp: select_close_def close_chan_def split: if_splits)
  from Cons.IH[OF r] k1 k2 k3 show ?case by auto
qed

lemma close_each_buffered:
  "close_each ks w = Inr w' \<Longrightarrow> distinct ks \<Longrightarrow> c \<in> set ks \<Longrightarrow> buf (heap w c) \<noteq> [] \<Longrightarrow>
     heap w' c = (heap w c)\<lparr>buf := tl (buf (heap w c))\<rparr>"
proof (induction ks arbitrary: w)
  case Nil
  then show ?case by simp
next
  case (Cons k ks)
  let ?w0 = "w\<lparr>pub := (pub w)\<lparr>subscribers := AList.delete k (subscribers (pub w))\<rparr>\<rparr>"
  from Cons.prems obtain w1 where
    s: "select_close k ?w0 = Inr w1" and r: "close_each ks w1 = Inr w'"
    by (auto simp: seq_eq_Inr)
  show ?case
  proof (cases "c = k")
    case True
    then have "c \<notin> set ks" using Cons.prems by simp
    then have "heap w' c = heap w1 c" using close_each_heap[OF r, of c] by simp
    moreover have "heap w1 c = (heap w c)\<lparr>buf := tl (buf (heap w c))\<rparr>"
      using s True Cons.prems by (auto simp: select_close_buffered)
    ultimately show ?thesis by simp
  next
    case False
    then have "heap w1 c = heap w c" using select_close_frame[OF s] by simp
    with Cons.IH[OF r] Cons.prems False show ?thesis by simp
  qed
qed

lemma Close_returns: "\<not> m (pub w) \<Longrightarrow> \<exists>w'. Close w = Inr w'"
proof -
  assume u: "\<not> m (pub w)"
  obtain w2 where "close_each (map fst (subscribers (pub w))) (emit Acquire (w\<lparr>pub := (pub w)\<lparr>m := True\<rparr>\<rparr>)) = Inr w2"
    using close_each_returns by blast
  with u show ?thesis by (simp add: Close_def Lock_def)
qed

lemma Close_unfold:
  "Close w = Inr w' \<Longrightarrow> \<not> m (pub w) \<and>
     (\<exists>w2. close_each (map fst (subscribers (pub w))) (emit Acquire (w\<lparr>pub := (pub w)\<lparr>m := True\<rparr>\<rparr>)) = Inr w2
           \<and> w' = Unlock w2)"
  by (auto simp: Close_def Lock_def seq_eq_Inr split: if_splits)

lemma Unlock_sel [simp]:
  "heap (Unlock w) = heap w" "nextc (Unlock w) = nextc w" "trace (Unlock w) = trace w @ [Release]"
  "subscribers (pub (Unlock w)) = subscribers (pub w)" "buffer (pub (Unlock w)) = buffer (pub w)"
  "m (pub (Unlock w)) = False" "maxchan (Unlock w) = maxchan w"
  by (simp_all add: Unlock_def)

lemma Close_registry_empty:
  assumes "Close w = Inr w'"
  shows "subscribers (pub w') = [] \<and> \<not> m (pub w') \<and> buffer (pub w') = buffer (pub w)"
proof -
  from Close_unfold[OF assms] obtain w2 where
    c: "close_each (map fst (subscribers (pub w))) (emit Acquire (w\<lparr>pub := (pub w)\<lparr>m := True\<rparr>\<rparr>)) = Inr w2"
    and w': "w' = Unlock w2" by blast
  from close_each_keys[OF c] have "set (map fst (subscribers (pub w2))) = {}" "buffer (pub w2) = buffer (pub w)"
    by simp_all
  then show ?thesis using w' by simp
qed

lemma Close_closes_empty:
  assumes "Close w = Inr w'" and "registered c w" and "buf (heap w c) = []"
  shows "closed (heap w' c)"
proof -
  from Close_unfold[OF assms(1)] obtain w2 where
    c: "close_each (map fst (subscribers (pub w))) (emit Acquire (w\<lparr>pub := (pub w)\<lparr>m := True\<rparr>\<rparr>)) = Inr w2"
    and w': "w' = Unlock w2" by blast
  from close_each_heap[OF c, of c] assms(2,3) show ?thesis
    using w' by (simp add: registered_def)
qed

lemma Close_buffered:
  assumes "Close w = Inr w'" and "registered c w" and "distinct (map fst (subscribers (pub w)))"
    and "buf (heap w c) \<noteq> []"
  shows "heap w' c = (heap w c)\<lparr>buf := tl (buf (heap w c))\<rparr>"
proof -
  from Close_unfold[OF assms(1)] obtain w2 where
    c: "close_each (map fst (subscribers (pub w))) (emit Acquire (w\<lparr>pub := (pub w)\<lparr>m := True\<rparr>\<rparr>)) = Inr w2"
    and w': "w' = Unlock w2" by blast
  from close_each_buffered[OF c, of c] assms(2,3,4) show ?thesis
    using w' by (simp add: registered_def)
qed

text \<open>
  C3. Claim: after \<^verbatim>\<open>Close\<close> the registry is empty and every subscription that was live
  has a closed queue; a later \<^verbatim>\<open>Publish\<close> delivers to no queue.

  The registry is empty after \<^verbatim>\<open>Close\<close> and a later \<^verbatim>\<open>Publish\<close> touches no queue
  (\<open>Close_registry_empty\<close>, \<open>Publish_empty\<close>); the queues that were empty are closed
  (\<open>Close_closes_empty\<close>). The loop of \<^verbatim>\<open>Close\<close> has the \<^verbatim>\<open>select\<close> of \<^verbatim>\<open>Evict\<close>, so a
  queue that holds a message loses that message and stays open (\<open>Close_buffered\<close>). Here
  channel 0 takes every message and channel 1 only event "a"; after one \<^verbatim>\<open>Publish\<close> of event
  "b" and \<^verbatim>\<open>Close\<close>, channel 1 is closed and channel 0 is not.
\<close>

theorem Close_buffered_queue_stays_open:
  "registry (run [forget Subscribe, forget (SubscribeTopic (on_event ''a'')),
                  Publish (message ''b'' 1) (\<lambda>_. SendCase), Close] (start 1)) = Inr []
 \<and> view 0 (run [forget Subscribe, forget (SubscribeTopic (on_event ''a'')),
                Publish (message ''b'' 1) (\<lambda>_. SendCase), Close] (start 1))
   = Inr \<lparr>is_registered = False, is_closed = False, times_closed = 0, capacity = 1, queued = []\<rparr>
 \<and> view 1 (run [forget Subscribe, forget (SubscribeTopic (on_event ''a'')),
                Publish (message ''b'' 1) (\<lambda>_. SendCase), Close] (start 1))
   = Inr \<lparr>is_registered = False, is_closed = True, times_closed = 1, capacity = 1, queued = []\<rparr>"
  by (simp add: ops)

section \<open>SendTopic and Publish\<close>

text \<open>
  The timer's duration is the number of seconds times \<open>10\<^sup>9\<close> as long as that fits 64 bits;
  beyond 9223372036 seconds the product wraps, here to a negative duration.
\<close>

lemma timer_ns_in_range:
  assumes "0 \<le> sint (Expire v)" and "sint (Expire v) \<le> 9223372036"
  shows "timer_ns v = sint (Expire v) * 1000000000"
proof -
  have "sint (Expire v * 1000000000) = signed_take_bit 63 (sint (Expire v) * sint (1000000000 :: 64 word))"
    by (simp add: sint_word_ariths)
  moreover have "sint (1000000000 :: 64 word) = 1000000000" by simp
  moreover have "signed_take_bit 63 (sint (Expire v) * 1000000000) = sint (Expire v) * 1000000000"
    using assms by (intro signed_take_bit_int_eq_self) auto
  ultimately show ?thesis by (simp add: timer_ns_def)
qed

lemma timer_ns_positive:
  "0 < sint (Expire v) \<Longrightarrow> sint (Expire v) \<le> 9223372036 \<Longrightarrow> 0 < timer_ns v"
  by (simp add: timer_ns_in_range)

lemma timer_ns_wraps: "timer_ns (message ev 9223372037) = - 9223372036709551616"
  by (simp add: timer_ns_def message_def)

lemma dispatched_closed [simp]: "closed (dispatched topic v pick c) = closed c"
  by (simp add: dispatched_def)

lemma SendTopic_open:
  "\<not> closed (heap w sub) \<Longrightarrow>
   \<exists>out. SendTopic sub topic v pick w =
      Inr (emit (Dispatch sub out) (w\<lparr>heap := (heap w)(sub := dispatched topic v pick (heap w sub))\<rparr>))"
  by (cases topic) (auto simp: SendTopic_def dispatched_def)

lemma SendTopic_frame:
  "SendTopic sub topic v pick w = Inr w' \<Longrightarrow>
     pub w' = pub w \<and> nextc w' = nextc w \<and> (\<forall>c. c \<noteq> sub \<longrightarrow> heap w' c = heap w c)
   \<and> (\<forall>c. closed (heap w' c) = closed (heap w c)) \<and> (\<exists>out. trace w' = trace w @ [Dispatch sub out])"
  by (auto simp: SendTopic_def split: if_splits)

lemma SendTopic_closed_panics:
  "closed (heap w sub) \<Longrightarrow> (case topic of None \<Rightarrow> True | Some f \<Rightarrow> f v) \<Longrightarrow> 0 < timer_ns v \<Longrightarrow>
   SendTopic sub topic v pick w = Inl SendOnClosed"
  by (cases topic) (auto simp: SendTopic_def)

lemma send_each_frame:
  "send_each subs v sched w = Inr w' \<Longrightarrow>
     pub w' = pub w \<and> nextc w' = nextc w \<and> (\<forall>c. closed (heap w' c) = closed (heap w c))
   \<and> (\<forall>c. c \<notin> set (map fst subs) \<longrightarrow> heap w' c = heap w c)
   \<and> (\<exists>tr. trace w' = trace w @ tr \<and> map dispatch_of tr = map (\<lambda>e. Some (fst e)) subs)"
proof (induction subs arbitrary: w)
  case Nil
  then show ?case by simp
next
  case (Cons a subs)
  obtain sub topic where a: "a = (sub, topic)" by (cases a)
  from Cons.prems a obtain w1 where
    s: "SendTopic sub topic v (sched sub) w = Inr w1" and r: "send_each subs v sched w1 = Inr w'"
    by (auto simp: seq_eq_Inr)
  from SendTopic_frame[OF s] obtain out where
    f: "pub w1 = pub w" "nextc w1 = nextc w" "\<forall>c. c \<noteq> sub \<longrightarrow> heap w1 c = heap w c"
       "\<forall>c. closed (heap w1 c) = closed (heap w c)" "trace w1 = trace w @ [Dispatch sub out]"
    by blast
  from Cons.IH[OF r] obtain tr where
    g: "pub w' = pub w1" "nextc w' = nextc w1" "\<forall>c. closed (heap w' c) = closed (heap w1 c)"
       "\<forall>c. c \<notin> set (map fst subs) \<longrightarrow> heap w' c = heap w1 c"
       "trace w' = trace w1 @ tr" "map dispatch_of tr = map (\<lambda>e. Some (fst e)) subs"
    by blast
  have "trace w' = trace w @ (Dispatch sub out # tr)
        \<and> map dispatch_of (Dispatch sub out # tr) = map (\<lambda>e. Some (fst e)) (a # subs)"
    using f g a by simp
  then have "\<exists>tr. trace w' = trace w @ tr \<and> map dispatch_of tr = map (\<lambda>e. Some (fst e)) (a # subs)"
    by blast
  moreover have "\<forall>c. c \<notin> set (map fst (a # subs)) \<longrightarrow> heap w' c = heap w c"
    using f g a by simp
  ultimately show ?case using f g by simp
qed

lemma send_each_returns:
  "list_all (\<lambda>c. \<not> closed (heap w c)) (map fst subs) \<Longrightarrow> \<exists>w'. send_each subs v sched w = Inr w'"
proof (induction subs arbitrary: w)
  case Nil
  show ?case by simp
next
  case (Cons a subs)
  obtain sub topic where a: "a = (sub, topic)" by (cases a)
  from Cons.prems a have o: "\<not> closed (heap w sub)" by simp
  from SendTopic_open[OF o] obtain w1 where s: "SendTopic sub topic v (sched sub) w = Inr w1"
    by blast
  from SendTopic_frame[OF s] Cons.prems have "list_all (\<lambda>c. \<not> closed (heap w1 c)) (map fst subs)"
    by simp
  from Cons.IH[OF this] s a show ?case by simp
qed

lemma send_each_heap:
  "send_each subs v sched w = Inr w' \<Longrightarrow> distinct (map fst subs) \<Longrightarrow>
   list_all (\<lambda>c. \<not> closed (heap w c)) (map fst subs) \<Longrightarrow>
   heap w' c = (case map_of subs c of None \<Rightarrow> heap w c
                | Some topic \<Rightarrow> dispatched topic v (sched c) (heap w c))"
proof (induction subs arbitrary: w)
  case Nil
  then show ?case by simp
next
  case (Cons a subs)
  obtain sub topic where a: "a = (sub, topic)" by (cases a)
  from Cons.prems a obtain w1 where
    s: "SendTopic sub topic v (sched sub) w = Inr w1" and r: "send_each subs v sched w1 = Inr w'"
    by (auto simp: seq_eq_Inr)
  from Cons.prems a have o: "\<not> closed (heap w sub)" by simp
  from SendTopic_open[OF o, of topic v "sched sub"] s
  have h1: "heap w1 = (heap w)(sub := dispatched topic v (sched sub) (heap w sub))"
    by auto
  from SendTopic_frame[OF s] Cons.prems have op: "list_all (\<lambda>c. \<not> closed (heap w1 c)) (map fst subs)"
    by simp
  from Cons.prems a have d: "distinct (map fst subs)" "sub \<notin> set (map fst subs)" by simp_all
  show ?case
  proof (cases "c = sub")
    case True
    then have "heap w' c = heap w1 c" using send_each_frame[OF r] d by simp
    then show ?thesis using True h1 a by simp
  next
    case False
    then show ?thesis using Cons.IH[OF r d(1) op] h1 a by (simp split: option.splits)
  qed
qed

lemma Publish_unfold:
  "Publish v sched w = Inr w' \<Longrightarrow> \<not> m (pub w) \<and>
     (\<exists>w2. send_each (subscribers (pub w)) v sched (emit Acquire (w\<lparr>pub := (pub w)\<lparr>m := True\<rparr>\<rparr>)) = Inr w2
           \<and> w' = Unlock w2)"
  by (auto simp: Publish_def Lock_def seq_eq_Inr split: if_splits)

lemma Publish_returns:
  assumes "\<not> m (pub w)" and "live_open w"
  shows "\<exists>w'. Publish v sched w = Inr w'"
proof -
  let ?w1 = "emit Acquire (w\<lparr>pub := (pub w)\<lparr>m := True\<rparr>\<rparr>)"
  have "list_all (\<lambda>c. \<not> closed (heap ?w1 c)) (map fst (subscribers (pub w)))"
    using assms(2) by (simp add: live_open_def)
  from send_each_returns[OF this] obtain w2 where "send_each (subscribers (pub w)) v sched ?w1 = Inr w2"
    by blast
  with assms(1) show ?thesis by (simp add: Publish_def Lock_def)
qed

lemma Publish_heap:
  assumes "Publish v sched w = Inr w'" and "distinct (map fst (subscribers (pub w)))" and "live_open w"
  shows "heap w' c = (case map_of (subscribers (pub w)) c of None \<Rightarrow> heap w c
                      | Some topic \<Rightarrow> dispatched topic v (sched c) (heap w c))"
proof -
  let ?w1 = "emit Acquire (w\<lparr>pub := (pub w)\<lparr>m := True\<rparr>\<rparr>)"
  from Publish_unfold[OF assms(1)] obtain w2 where
    s: "send_each (subscribers (pub w)) v sched ?w1 = Inr w2" and w': "w' = Unlock w2" by blast
  have "list_all (\<lambda>c. \<not> closed (heap ?w1 c)) (map fst (subscribers (pub w)))"
    using assms(3) by (simp add: live_open_def)
  from send_each_heap[OF s assms(2) this, of c] w' show ?thesis by (simp split: option.splits)
qed

lemma Publish_pub:
  assumes "Publish v sched w = Inr w'"
  shows "pub w' = pub w"
proof -
  from Publish_unfold[OF assms] obtain w2 where u: "\<not> m (pub w)" and
    s: "send_each (subscribers (pub w)) v sched (emit Acquire (w\<lparr>pub := (pub w)\<lparr>m := True\<rparr>\<rparr>)) = Inr w2"
    and w': "w' = Unlock w2" by blast
  from send_each_frame[OF s] have "pub w2 = (pub w)\<lparr>m := True\<rparr>" by simp
  with u w' show ?thesis by (simp add: Unlock_def)
qed

lemma Publish_empty:
  "\<not> m (pub w) \<Longrightarrow> subscribers (pub w) = [] \<Longrightarrow>
   \<exists>w'. Publish v sched w = Inr w' \<and> heap w' = heap w \<and> trace w' = trace w @ [Acquire, Release]"
  by (simp add: Publish_def Lock_def)

lemma Publish_filtered_out:
  assumes "Publish v sched w = Inr w'" and "distinct (map fst (subscribers (pub w)))" and "live_open w"
    and "map_of (subscribers (pub w)) c = Some (Some f)" and "\<not> f v"
  shows "heap w' c = heap w c"
  using Publish_heap[OF assms(1-3), of c] assms(4,5) by (simp add: dispatched_def)

lemma Publish_delivers:
  assumes "Publish v sched w = Inr w'" and "distinct (map fst (subscribers (pub w)))" and "live_open w"
    and "map_of (subscribers (pub w)) c = Some topic" and "case topic of None \<Rightarrow> True | Some f \<Rightarrow> f v"
    and "length (buf (heap w c)) < cap (heap w c)" and "0 < timer_ns v"
  shows "buf (heap w' c) = buf (heap w c) @ [v]"
  using Publish_heap[OF assms(1-3), of c] assms(4-7) by (simp add: dispatched_def)

lemma Publish_full_queue:
  assumes "Publish v sched w = Inr w'" and "distinct (map fst (subscribers (pub w)))" and "live_open w"
    and "cap (heap w c) \<le> length (buf (heap w c))"
  shows "heap w' c = heap w c"
  using Publish_heap[OF assms(1-3), of c] assms(4) by (simp add: dispatched_def split: option.splits)

lemma Publish_elapsed_timer_drops:
  assumes "Publish v sched w = Inr w'" and "distinct (map fst (subscribers (pub w)))" and "live_open w"
    and "timer_ns v \<le> 0" and "sched c = TimerCase"
  shows "heap w' c = heap w c"
  using Publish_heap[OF assms(1-3), of c] assms(4,5) by (simp add: dispatched_def split: option.splits)

lemma Publish_order_irrelevant:
  assumes "Publish v sched w1 = Inr w1'" and "Publish v sched w2 = Inr w2'"
    and "heap w1 = heap w2" and "set (subscribers (pub w1)) = set (subscribers (pub w2))"
    and "distinct (map fst (subscribers (pub w1)))" and "distinct (map fst (subscribers (pub w2)))"
    and "live_open w1"
  shows "heap w1' = heap w2'"
proof
  fix c
  have mo: "map_of (subscribers (pub w1)) = map_of (subscribers (pub w2))"
    using assms(4-6) by (simp add: map_of_inject_set)
  have "set (map fst (subscribers (pub w1))) = set (map fst (subscribers (pub w2)))"
    using assms(4) by simp
  then have lo: "live_open w2"
    using assms(3,7) by (simp add: live_open_def list_all_iff)
  show "heap w1' c = heap w2' c"
    using Publish_heap[OF assms(1,5,7), of c] Publish_heap[OF assms(2,6) lo, of c] mo assms(3)
    by (simp split: option.splits)
qed

lemma Publish_unregistered:
  assumes "Publish v sched w = Inr w'" and "\<not> registered c w"
  shows "heap w' c = heap w c"
proof -
  from Publish_unfold[OF assms(1)] obtain w2 where
    s: "send_each (subscribers (pub w)) v sched (emit Acquire (w\<lparr>pub := (pub w)\<lparr>m := True\<rparr>\<rparr>)) = Inr w2"
    and w': "w' = Unlock w2" by blast
  from send_each_frame[OF s] assms(2) w' show ?thesis by (simp add: registered_def)
qed

lemma Publish_closed_registered_panics:
  "\<not> m (pub w) \<Longrightarrow> subscribers (pub w) = (c, None) # rest \<Longrightarrow> closed (heap w c) \<Longrightarrow> 0 < timer_ns v \<Longrightarrow>
   Publish v sched w = Inl SendOnClosed"
  by (simp add: Publish_def Lock_def SendTopic_def)

text \<open>
  C4. Claim: for a live subscription with filter \<open>F\<close>, \<^verbatim>\<open>Publish\<close> of \<open>M\<close> delivers \<open>M\<close> iff
  \<open>F M\<close> holds (given room in the queue); when \<open>F M\<close> is false nothing is enqueued and the
  queue is unchanged.

  A message the filter rejects leaves the queue as it was (\<open>Publish_filtered_out\<close>), and a
  message the filter accepts is enqueued when there is room and the timer's duration is
  positive (\<open>Publish_delivers\<close>). With \<^verbatim>\<open>Expire\<close> zero (or a product that is not positive) the
  timer's channel can be received from as soon as the \<^verbatim>\<open>select\<close> starts, so both cases can
  proceed and Go takes one at random. When it is the timer case, the accepted message is
  dropped although the queue has room. Here the filter accepts event "x" and the capacity is
  2: the message of event "y" is skipped, the message of event "x" with \<^verbatim>\<open>Expire\<close> 1 is
  enqueued, and the message of event "x" with \<^verbatim>\<open>Expire\<close> 0 is not.
\<close>

theorem Publish_accepted_message_dropped:
  "view 0 (run [forget (SubscribeTopic (on_event ''x'')),
                Publish (message ''y'' 1) (\<lambda>_. SendCase),
                Publish (message ''x'' 1) (\<lambda>_. TimerCase),
                Publish (message ''x'' 0) (\<lambda>_. TimerCase)] (start 2))
   = Inr \<lparr>is_registered = True, is_closed = False, times_closed = 0, capacity = 2,
          queued = [message ''x'' 1]\<rparr>"
  by (simp add: ops)

text \<open>
  C5. Claim: for every message \<open>M\<close> and every subscription without a filter that is live and
  whose queue is not full, \<open>M\<close> is on the queue after \<^verbatim>\<open>Publish\<close> returns.

  This holds for every message whose timer has a positive duration (\<open>Publish_delivers\<close> with
  the filter \<open>None\<close>). A message with \<^verbatim>\<open>Expire\<close> zero can be dropped by the same random
  choice of the \<^verbatim>\<open>select\<close>: the subscription of \<^verbatim>\<open>Subscribe\<close> has an empty queue of
  capacity 1 before and after the call.
\<close>

theorem Publish_unfiltered_message_dropped:
  "view 0 (run [forget Subscribe, Publish (message ''x'' 0) (\<lambda>_. TimerCase)] (start 1))
   = Inr \<lparr>is_registered = True, is_closed = False, times_closed = 0, capacity = 1, queued = []\<rparr>"
  by (simp add: ops)

text \<open>
  With the send case taken whenever it can proceed, two messages with \<^verbatim>\<open>Expire\<close> zero for
  a queue of capacity 1 go the way the specification tells: the first is enqueued, the second
  dispatch finds the queue full and takes the timer case without waiting, and one message is
  queued at the end.
\<close>

lemma Publish_expire_zero_send_preferred:
  "view 0 (run [forget (SubscribeTopic (on_event ''x'')), Publish (message ''x'' 0) (\<lambda>_. SendCase),
                Publish (message ''x'' 0) (\<lambda>_. SendCase)] (start 1))
   = Inr \<lparr>is_registered = True, is_closed = False, times_closed = 0, capacity = 1,
          queued = [message ''x'' 0]\<rparr>
 \<and> history (run [forget (SubscribeTopic (on_event ''x'')), Publish (message ''x'' 0) (\<lambda>_. SendCase),
                Publish (message ''x'' 0) (\<lambda>_. SendCase)] (start 1))
   = Inr [Acquire, Release, Acquire, Dispatch 0 Sent, Release,
          Acquire, Dispatch 0 (TimedOut 0), Release]"
  by (simp add: ops)

text \<open>
  C6. Claim: with \<^verbatim>\<open>Expire\<close> zero nothing waits; with a queue of capacity 1 and a filter that
  accepts event "x", publishing the message of event "x" twice enqueues the first, abandons
  the second at once, returns both times without error and leaves exactly one message.

  Both calls return without error and neither waits. Which dispatch enqueues is not
  determined: the timer of duration zero can be taken by the \<^verbatim>\<open>select\<close> of the first
  dispatch, and of the second, so that the queue is empty after both calls.
\<close>

theorem Publish_expire_zero_twice_queue_empty:
  "view 0 (run [forget (SubscribeTopic (on_event ''x'')),
                Publish (message ''x'' 0) (\<lambda>_. TimerCase)] (start 1))
   = Inr \<lparr>is_registered = True, is_closed = False, times_closed = 0, capacity = 1, queued = []\<rparr>
 \<and> view 0 (run [forget (SubscribeTopic (on_event ''x'')),
                Publish (message ''x'' 0) (\<lambda>_. TimerCase),
                Publish (message ''x'' 0) (\<lambda>_. TimerCase)] (start 1))
   = Inr \<lparr>is_registered = True, is_closed = False, times_closed = 0, capacity = 1, queued = []\<rparr>
 \<and> history (run [forget (SubscribeTopic (on_event ''x'')),
                Publish (message ''x'' 0) (\<lambda>_. TimerCase),
                Publish (message ''x'' 0) (\<lambda>_. TimerCase)] (start 1))
   = Inr [Acquire, Release, Acquire, Dispatch 0 (TimedOut 0), Release,
          Acquire, Dispatch 0 (TimedOut 0), Release]"
  by (simp add: ops)

text \<open>
  C7, as stated: the registry lock is never held while a dispatch waits on a subscriber's
  queue. In this run the queue of capacity 1 is full when the second message, with
  \<^verbatim>\<open>Expire\<close> 5, is published: its dispatch waits out the timer of 5 seconds between the
  \<^verbatim>\<open>Lock\<close> and the \<^verbatim>\<open>Unlock\<close> of \<^verbatim>\<open>Publish\<close>.
\<close>

theorem Publish_waits_with_lock_held:
  "history (run [forget Subscribe, Publish (message ''x'' 1) (\<lambda>_. SendCase),
                 Publish (message ''x'' 5) (\<lambda>_. SendCase)] (start 1))
   = Inr [Acquire, Release, Acquire, Dispatch 0 Sent, Release,
          Acquire, Dispatch 0 (TimedOut 5000000000), Release]
 \<and> \<not> waits_unlocked False [Acquire, Release, Acquire, Dispatch 0 Sent, Release,
          Acquire, Dispatch 0 (TimedOut 5000000000), Release]"
  by (simp add: ops)

text \<open>
  C7, amended: \<^verbatim>\<open>Publish\<close> holds the registry lock for the whole call. What a call that
  returns adds to the history is the \<^verbatim>\<open>Lock\<close>, then one dispatch for every entry of the
  map, then the \<^verbatim>\<open>Unlock\<close>: every dispatch, also one that waits for room on a full queue,
  runs while the lock is held.
\<close>

theorem Publish_holds_lock:
  assumes "Publish v sched w = Inr w'"
  shows "\<exists>tr. trace w' = trace w @ Acquire # tr @ [Release]
            \<and> map dispatch_of tr = map (\<lambda>e. Some (fst e)) (subscribers (pub w))"
proof -
  from Publish_unfold[OF assms] obtain w2 where
    s: "send_each (subscribers (pub w)) v sched (emit Acquire (w\<lparr>pub := (pub w)\<lparr>m := True\<rparr>\<rparr>)) = Inr w2"
    and w': "w' = Unlock w2" by blast
  from send_each_frame[OF s] obtain tr where
    "trace w2 = trace w @ Acquire # tr" "map dispatch_of tr = map (\<lambda>e. Some (fst e)) (subscribers (pub w))"
    by auto
  with w' show ?thesis by simp
qed

theorem Publish_holds_lock_witness:
  "\<exists>w'. Publish (message ''x'' 5) (\<lambda>_. SendCase) full_queue = Inr w'
      \<and> (\<exists>tr. trace w' = trace full_queue @ Acquire # tr @ [Release]
             \<and> map dispatch_of tr = map (\<lambda>e. Some (fst e)) (subscribers (pub full_queue)))"
proof -
  have "\<not> m (pub full_queue)" "live_open full_queue"
    by (simp_all add: full_queue_def live_open_def)
  from Publish_returns[OF this] obtain w' where
    p: "Publish (message ''x'' 5) (\<lambda>_. SendCase) full_queue = Inr w'" by blast
  from Publish_holds_lock[OF p] p show ?thesis by blast
qed

text \<open>
  C9. \<^verbatim>\<open>Publish\<close> never modifies the registry: when it returns, the entries of the map, that
  is the registered channels and the filter of each, are what they were before the call.
\<close>

theorem Publish_keeps_registry:
  "Publish v sched w = Inr w' \<Longrightarrow>
     subscribers (pub w') = subscribers (pub w) \<and> buffer (pub w') = buffer (pub w)"
  using Publish_pub[of v sched w w'] by simp

theorem Publish_keeps_registry_witness:
  "\<exists>w'. Publish (message ''x'' 1) (\<lambda>_. SendCase) two_subscribers = Inr w'
      \<and> subscribers (pub w') = subscribers (pub two_subscribers)
      \<and> buffer (pub w') = buffer (pub two_subscribers)"
proof -
  have "\<not> m (pub two_subscribers)" "live_open two_subscribers"
    by (simp_all add: two_subscribers_def live_open_def)
  from Publish_returns[OF this] obtain w' where
    p: "Publish (message ''x'' 1) (\<lambda>_. SendCase) two_subscribers = Inr w'" by blast
  from Publish_keeps_registry[OF p] p show ?thesis by blast
qed

section \<open>Subscribe and SubscribeTopic\<close>

lemma update_fresh: "k \<notin> fst ` set al \<Longrightarrow> AList.update k v al = al @ [(k, v)]"
  by (induction al) auto

lemma allocated_fresh: "allocated w \<Longrightarrow> \<not> registered (nextc w) w"
  by (auto simp: allocated_def registered_def list_all_iff)

lemma SubscribeTopic_result:
  assumes "make_accepts (buffer (pub w)) w" and "\<not> m (pub w)"
  shows "\<exists>w'. SubscribeTopic topic w = Inr (nextc w, w')
      \<and> heap w' = (heap w)(nextc w := \<lparr>cap = nat (buffer (pub w)), buf = [], closed = False\<rparr>)
      \<and> subscribers (pub w') = AList.update (nextc w) topic (subscribers (pub w))
      \<and> buffer (pub w') = buffer (pub w) \<and> \<not> m (pub w') \<and> nextc w' = Suc (nextc w)
      \<and> trace w' = trace w @ [Acquire, Release] \<and> maxchan w' = maxchan w"
  using assms by (simp add: SubscribeTopic_def make_chan_def make_accepts_def Lock_def)

lemma SubscribeTopic_negative:
  "buffer (pub w) < 0 \<Longrightarrow> SubscribeTopic topic w = Inl MakeChanSize"
  by (simp add: SubscribeTopic_def make_chan_def)

lemma SubscribeTopic_too_large:
  "2 ^ 45 - 12 \<le> buffer (pub w) \<Longrightarrow> SubscribeTopic topic w = Inl MakeChanSize"
  by (simp add: SubscribeTopic_def make_chan_def maxAlloc_def hchanSize_def)

lemma Subscribe_large_sizes:
  "Subscribe (start (2 ^ 60) :: unit world) = Inl MakeChanSize"
  "Subscribe (start (2 ^ 70) :: unit world) = Inl MakeChanSize"
  "Subscribe (start (2 ^ 30) :: unit world) = Inl OutOfMemory"
  by (simp_all add: Subscribe_def SubscribeTopic_def make_chan_def maxAlloc_def hchanSize_def
        start_def NewPublisher_def)

lemma SubscribeTopic_refused:
  "\<not> make_accepts (buffer (pub w)) w \<Longrightarrow>
   SubscribeTopic topic w = Inl MakeChanSize \<or> SubscribeTopic topic w = Inl OutOfMemory"
  by (auto simp: SubscribeTopic_def make_chan_def make_accepts_def)

lemma SubscribeTopic_accepted:
  "SubscribeTopic topic w = Inr r \<Longrightarrow> make_accepts (buffer (pub w)) w \<and> \<not> m (pub w)"
  by (auto simp: SubscribeTopic_def make_chan_def make_accepts_def Lock_def seq_eq_Inr
        split: if_splits)

lemma subscribe_spec_new:
  "subscribe_spec topic w (ch, w') \<Longrightarrow> \<not> ch < nextc w \<and> nextc w < nextc w'"
  by (auto simp: subscribe_spec_def)




section \<open>The states of a run through the interface\<close>

text \<open>
  Every call of the interface keeps a state \<open>sound\<close>, and \<^verbatim>\<open>Publish\<close> returns in every
  such state: no channel that \<^verbatim>\<open>Evict\<close> or \<^verbatim>\<open>Close\<close> has closed is still in the map. A
  channel that is in the map and was closed by its owner makes the dispatch panic
  (\<open>SendTopic_closed_panics\<close>, \<open>Publish_closed_registered_panics\<close>).
\<close>

lemma sound_start: "sound (start n)"
  by (simp add: sound_def start_def NewPublisher_def allocated_def live_open_def)

lemma SubscribeTopic_sound:
  assumes "sound w" and "SubscribeTopic topic w = Inr (ch, w')"
  shows "sound w'"
proof -
  have nb: "make_accepts (buffer (pub w)) w" using assms(2)
    by (simp add: SubscribeTopic_accepted)
  have u: "\<not> m (pub w)" and d: "distinct (map fst (subscribers (pub w)))"
    and a: "allocated w" and l: "live_open w"
    using assms(1) by (simp_all add: sound_def)
  from SubscribeTopic_result[OF nb u, of topic] assms(2) have
    h: "heap w' = (heap w)(nextc w := \<lparr>cap = nat (buffer (pub w)), buf = [], closed = False\<rparr>)"
    and s: "subscribers (pub w') = AList.update (nextc w) topic (subscribers (pub w))"
    and m': "\<not> m (pub w')" and n: "nextc w' = Suc (nextc w)"
    by auto
  have "nextc w \<notin> fst ` set (subscribers (pub w))"
    using allocated_fresh[OF a] by (simp add: registered_def)
  then have s': "subscribers (pub w') = subscribers (pub w) @ [(nextc w, topic)]"
    using s by (simp add: update_fresh)
  have "distinct (map fst (subscribers (pub w')))"
    using d allocated_fresh[OF a] s' by (simp add: registered_def)
  moreover have "allocated w'"
    using a s' n by (auto simp: allocated_def list_all_iff)
  moreover have "live_open w'"
    using l s' h by (auto simp: live_open_def list_all_iff)
  ultimately show ?thesis using m' by (simp add: sound_def)
qed

lemma Evict_sound:
  assumes "sound w" and "Evict sub w = Inr w'"
  shows "sound w'"
proof -
  from Evict_registry[OF assms(2)] have
    s: "subscribers (pub w') = AList.delete sub (subscribers (pub w))" and m': "\<not> m (pub w')"
    and n: "nextc w' = nextc w" by simp_all
  have d: "distinct (map fst (subscribers (pub w)))" and a: "allocated w" and l: "live_open w"
    using assms(1) by (simp_all add: sound_def)
  have k: "set (map fst (subscribers (pub w'))) = set (map fst (subscribers (pub w))) - {sub}"
    using s by (auto simp: AList.delete_eq)
  have h: "\<And>c. c \<noteq> sub \<Longrightarrow> heap w' c = heap w c"
  proof (cases "registered sub w")
    case True
    fix c assume "c \<noteq> sub"
    with True assms show "heap w' c = heap w c"
      by (auto simp: sound_def Evict_registered seq_eq_Inr dest!: select_close_frame)
  next
    case False
    fix c assume "c \<noteq> sub"
    with False assms show "heap w' c = heap w c"
      by (auto simp: sound_def Evict_unregistered)
  qed
  have "distinct (map fst (subscribers (pub w')))" using d s by (simp add: AList.distinct_delete)
  moreover have "allocated w'" using a k n by (auto simp: allocated_def list_all_iff)
  moreover have "live_open w'" using l k h by (auto simp: live_open_def list_all_iff)
  ultimately show ?thesis using m' by (simp add: sound_def)
qed

lemma Close_sound:
  assumes "Close w = Inr w'"
  shows "sound w'"
  using Close_registry_empty[OF assms] by (simp add: sound_def allocated_def live_open_def)

lemma Publish_sound:
  assumes "sound w" and "Publish v sched w = Inr w'"
  shows "sound w'"
proof -
  from Publish_unfold[OF assms(2)] obtain w2 where
    s: "send_each (subscribers (pub w)) v sched (emit Acquire (w\<lparr>pub := (pub w)\<lparr>m := True\<rparr>\<rparr>)) = Inr w2"
    and w': "w' = Unlock w2" by blast
  from send_each_frame[OF s] w' have "nextc w' = nextc w" "\<forall>c. closed (heap w' c) = closed (heap w c)"
    by simp_all
  with assms(1) Publish_pub[OF assms(2)] show ?thesis
    by (simp add: sound_def allocated_def live_open_def)
qed

lemma Publish_sound_returns: "sound w \<Longrightarrow> \<exists>w'. Publish v sched w = Inr w'"
  by (simp add: sound_def Publish_returns)

end
